theory Spec2Isabelle
  imports Complex_Main "HOL-Library.Sublist" "HOL-Library.Multiset"
begin

text \<open>
  A model of the class \<^verbatim>\<open>InfiniteMind\<close> of \<^verbatim>\<open>InfiniteMindQuantized.py\<close>: the store of
  thoughts with its capacity bound, the association index, recall, the evolution of a
  thought and the novelty score. Every method is a function from the state of the object
  before the call to the value returned, or the exception raised, and the state after it.
  The summary report and the agent of \<^verbatim>\<open>agent.py\<close> are left out.
\<close>

section \<open>Python strings\<close>

text \<open>
  A Python \<^verbatim>\<open>str\<close> is modelled as a \<^typ>\<open>string\<close> whose characters are the code
  points below 256. On that range \<^verbatim>\<open>str.split()\<close> treats exactly the code points
  9 to 13, 28 to 32, 133 and 160 as whitespace, and \<^verbatim>\<open>str.lower()\<close> maps the letters
  A to Z and the Latin-1 capitals 192 to 222 (without the multiplication sign 215) to the
  code point 32 above them and leaves every other character alone.
\<close>

definition isspace :: "char \<Rightarrow> bool" where
  "isspace c = (c \<in> {CHR 0x09, CHR 0x0A, CHR 0x0B, CHR 0x0C, CHR 0x0D,
                     CHR 0x1C, CHR 0x1D, CHR 0x1E, CHR 0x1F, CHR 0x20, CHR 0x85, CHR 0xA0})"

definition lower_char :: "char \<Rightarrow> char" where
  "lower_char c =
     (let n = (of_char c :: nat)
      in if (65 \<le> n \<and> n \<le> 90) \<or> (192 \<le> n \<and> n \<le> 222 \<and> n \<noteq> 215)
         then char_of (n + 32) else c)"

definition lower :: "string \<Rightarrow> string" where
  "lower s = map lower_char s"

text \<open>
  \<^verbatim>\<open>s.split()\<close>: the maximal runs of non-whitespace characters, in order. The first
  argument of \<open>split_acc\<close> is the run collected so far.
\<close>

fun split_acc :: "string \<Rightarrow> string \<Rightarrow> string list" where
  "split_acc w [] = (if w = [] then [] else [w])"
| "split_acc w (c # cs) =
     (if isspace c then (if w = [] then split_acc [] cs else w # split_acc [] cs)
      else split_acc (w @ [c]) cs)"

definition split :: "string \<Rightarrow> string list" where
  "split s = split_acc [] s"

text \<open>\<^verbatim>\<open>sep.join(ws)\<close>.\<close>

fun join :: "string \<Rightarrow> string list \<Rightarrow> string" where
  "join sep [] = []"
| "join sep [w] = w"
| "join sep (w # v # ws) = w @ sep @ join sep (v # ws)"

text \<open>\<^verbatim>\<open>set(s.lower().split())\<close>: the lower-cased word set of a string.\<close>

definition words_of :: "string \<Rightarrow> string set" where
  "words_of s = set (split (lower s))"

section \<open>Python floats\<close>

text \<open>
  A Python \<^verbatim>\<open>float\<close>: not-a-number, the two infinities, or a finite value. The finite
  values are kept as reals, so every finite float is there (the two zeros are one value,
  as they are for \<^verbatim>\<open>==\<close> and \<^verbatim>\<open><\<close>). \<open>flt\<close> is Python's \<^verbatim>\<open>x < y\<close> and \<open>fle\<close> is
  \<^verbatim>\<open>x <= y\<close>: every comparison with NaN is false.
\<close>

datatype pyfloat = NaN | NegInf | Fin real | PosInf

fun flt :: "pyfloat \<Rightarrow> pyfloat \<Rightarrow> bool" where
  "flt NaN y = False"
| "flt x NaN = False"
| "flt PosInf y = False"
| "flt x NegInf = False"
| "flt NegInf y = True"
| "flt x PosInf = True"
| "flt (Fin a) (Fin b) = (a < b)"

definition fle :: "pyfloat \<Rightarrow> pyfloat \<Rightarrow> bool" where
  "fle x y = (flt x y \<or> (x = y \<and> x \<noteq> NaN))"

text \<open>
  \<^verbatim>\<open>max(a, b)\<close> keeps its first argument unless the second is greater.
\<close>

definition py_max :: "pyfloat \<Rightarrow> pyfloat \<Rightarrow> pyfloat" where
  "py_max a b = (if flt a b then b else a)"

text \<open>
  The arithmetic of floats on operands where it is exact; the examples use it on small
  integers and halves, where the rounded result of Python is the exact one.
\<close>

fun exact_mul :: "nat \<Rightarrow> pyfloat \<Rightarrow> pyfloat" where
  "exact_mul n NaN = NaN"
| "exact_mul n (Fin r) = Fin (real n * r)"
| "exact_mul n PosInf = (if n = 0 then NaN else PosInf)"
| "exact_mul n NegInf = (if n = 0 then NaN else NegInf)"

fun exact_sub :: "pyfloat \<Rightarrow> pyfloat \<Rightarrow> pyfloat" where
  "exact_sub NaN y = NaN"
| "exact_sub x NaN = NaN"
| "exact_sub (Fin a) (Fin b) = Fin (a - b)"
| "exact_sub (Fin a) PosInf = NegInf"
| "exact_sub (Fin a) NegInf = PosInf"
| "exact_sub PosInf PosInf = NaN"
| "exact_sub PosInf y = PosInf"
| "exact_sub NegInf NegInf = NaN"
| "exact_sub NegInf y = NegInf"

section \<open>The data of InfiniteMind\<close>

text \<open>
  One entry of \<^verbatim>\<open>self.thoughts\<close>. The dictionary keys \<^verbatim>\<open>'id'\<close> and
  \<^verbatim>\<open>'associations'\<close> are the fields \<open>thought_id\<close> and \<open>entry_associations\<close>. The
  importance is the float the caller gave (\<^verbatim>\<open>importance: float\<close>, any float); the
  timestamp is a reading of the clock.
\<close>

record thought_entry =
  content :: string
  importance :: pyfloat
  timestamp :: real
  thought_id :: string
  depth :: int
  entry_associations :: "string list"

text \<open>One record of \<^verbatim>\<open>self.evolution_history\<close>.\<close>

record evolution =
  original :: string
  evolved :: string
  evolution_depth :: int
  evolution_timestamp :: real

text \<open>One element of the list \<^verbatim>\<open>recall\<close> returns.\<close>

record scored =
  thought :: thought_entry
  relevance :: pyfloat

record mind =
  thoughts :: "thought_entry list"
  raw_thoughts :: "string list"
  associations :: "string \<rightharpoonup> string list"
  importance_scores :: "string \<rightharpoonup> pyfloat"
  thought_frequency :: "string \<rightharpoonup> nat"
  evolution_history :: "evolution list"
  capacity :: int
  creation_time :: real

definition MAX_THOUGHT_DEPTH :: int where
  "MAX_THOUGHT_DEPTH = 10"

text \<open>\<^verbatim>\<open>InfiniteMind.__init__(capacity)\<close>, the clock reading \<open>now\<close>.\<close>

definition init_mind :: "int \<Rightarrow> real \<Rightarrow> mind" where
  "init_mind cap now =
     \<lparr>thoughts = [], raw_thoughts = [], associations = Map.empty,
      importance_scores = Map.empty, thought_frequency = Map.empty,
      evolution_history = [], capacity = cap, creation_time = now\<rparr>"

section \<open>Python values and the environment\<close>

text \<open>
  The argument of \<^verbatim>\<open>expand\<close> is any Python value. Only the distinction the code draws
  matters here: a list, or something else (a string, a number, \<^verbatim>\<open>None\<close>, a tuple, a
  dictionary that is an entry of the store). A \<open>pyval\<close> is a value as it is when the
  loop reads it, and a \<open>PyList\<close> is a list object that the call itself does not change;
  the lists of the store that a caller can pass back are \<open>own_list\<close> below.
\<close>

datatype pyval =
    PyStr string
  | PyInt int
  | PyNone
  | PyTuple "pyval list"
  | PyList "pyval list"
  | PyEntry thought_entry

datatype py_error = ValueError | UnicodeEncodeError | OtherError string

text \<open>
  What the code takes from outside the repository is a parameter of the model:
  \<^item> \<open>str_other\<close> is what the builtin \<^verbatim>\<open>str()\<close> returns on a value that is not a string,
    and \<open>str_raises\<close> the exception it raises instead, if it raises one (as
    \<^verbatim>\<open>str(10**5000)\<close> does);
  \<^item> \<open>md5_hexdigest\<close> is \<^verbatim>\<open>hashlib.md5(s.encode()).hexdigest()\<close>, and \<open>encode_raises\<close>
    the exception that expression raises instead, if it raises one (as \<^verbatim>\<open>s.encode()\<close>
    does on a string with a lone surrogate);
  \<^item> \<open>float_mul n x\<close> is the float product \<^verbatim>\<open>n * x\<close> of an \<^verbatim>\<open>int\<close> and a float, and
    \<open>float_sub x y\<close> the float difference \<^verbatim>\<open>x - y\<close>, both as Python rounds them;
  \<^item> \<open>nan_sort\<close> is what \<^verbatim>\<open>list.sort\<close> leaves of a list with a NaN among its keys,
    where the comparisons are not an order and the outcome depends on the
    implementation of the sort.
  The readings of \<^verbatim>\<open>time.time()\<close> are arguments of the operations that read the clock.
\<close>

record env =
  str_other :: "pyval \<Rightarrow> string"
  str_raises :: "pyval \<Rightarrow> py_error option"
  md5_hexdigest :: "string \<Rightarrow> string"
  encode_raises :: "string \<Rightarrow> py_error option"
  float_mul :: "nat \<Rightarrow> pyfloat \<Rightarrow> pyfloat"
  float_sub :: "pyfloat \<Rightarrow> pyfloat \<Rightarrow> pyfloat"
  nan_sort :: "scored list \<Rightarrow> scored list"

text \<open>\<^verbatim>\<open>str(v)\<close> when it returns: a string is its own string form.\<close>

fun py_str :: "env \<Rightarrow> pyval \<Rightarrow> string" where
  "py_str E (PyStr s) = s"
| "py_str E v = str_other E v"

text \<open>The exception \<^verbatim>\<open>str(v)\<close> raises, if any: none on a string.\<close>

fun str_error :: "env \<Rightarrow> pyval \<Rightarrow> py_error option" where
  "str_error E (PyStr s) = None"
| "str_error E v = str_raises E v"

section \<open>Eviction\<close>

text \<open>
  \<^verbatim>\<open>min(iterable, key=f)\<close> keeps the first item and replaces it by a later one only
  when \<^verbatim>\<open><\<close> says that the later key is smaller.
\<close>

fun min_from :: "(nat \<Rightarrow> pyfloat) \<Rightarrow> nat \<Rightarrow> nat list \<Rightarrow> nat" where
  "min_from key best [] = best"
| "min_from key best (i # is) = min_from key (if flt (key i) (key best) then i else best) is"

definition min_index :: "thought_entry list \<Rightarrow> nat" where
  "min_index ts = min_from (\<lambda>i. importance (ts ! i)) 0 [1..<length ts]"

text \<open>
  \<^verbatim>\<open>_evict_least_important\<close>: \<^verbatim>\<open>self.thoughts.pop(min_idx)\<close>, then the first
  occurrence of the evicted content leaves \<^verbatim>\<open>self.raw_thoughts\<close> when it is there.
\<close>

definition evict_least_important :: "mind \<Rightarrow> mind" where
  "evict_least_important s =
     (if thoughts s = [] then s
      else
        let min_idx = min_index (thoughts s);
            evicted = thoughts s ! min_idx;
            s1 = s\<lparr>thoughts := take min_idx (thoughts s) @ drop (Suc min_idx) (thoughts s)\<rparr>
        in if content evicted \<in> set (raw_thoughts s1)
           then s1\<lparr>raw_thoughts := remove1 (content evicted) (raw_thoughts s1)\<rparr>
           else s1)"

section \<open>Associations\<close>

text \<open>\<^verbatim>\<open>d.setdefault(k, v)\<close> as far as the dictionary goes.\<close>

definition setdefault :: "('k \<rightharpoonup> 'v) \<Rightarrow> 'k \<Rightarrow> 'v \<Rightarrow> ('k \<rightharpoonup> 'v)" where
  "setdefault m k v = (case m k of None \<Rightarrow> m(k \<mapsto> v) | Some _ \<Rightarrow> m)"

text \<open>
  \<^verbatim>\<open>d[k].append(x)\<close> for a key that is present. In \<^verbatim>\<open>_build_associations\<close> both keys
  are present when the append runs: \<open>content_key\<close> by the \<^verbatim>\<open>setdefault\<close> before the
  loop, the other one by the \<^verbatim>\<open>setdefault\<close> of the same statement.
\<close>

definition append_at :: "('k \<rightharpoonup> 'v list) \<Rightarrow> 'k \<Rightarrow> 'v \<Rightarrow> ('k \<rightharpoonup> 'v list)" where
  "append_at m k x = (case m k of None \<Rightarrow> m | Some l \<Rightarrow> m(k \<mapsto> l @ [x]))"

text \<open>
  The body of the loop of \<^verbatim>\<open>_build_associations\<close>: the state of the loop is the new
  entry (its id list grows) and the adjacency dictionary.
\<close>

definition assoc_step ::
  "string set \<Rightarrow> string \<Rightarrow> thought_entry \<times> (string \<rightharpoonup> string list) \<Rightarrow> thought_entry
     \<Rightarrow> thought_entry \<times> (string \<rightharpoonup> string list)" where
  "assoc_step words content_key st existing =
     (let existing_words = words_of (content existing);
          overlap = words \<inter> existing_words
      in if overlap \<noteq> {} then
           let strength = real (card overlap) / real (max (card (words \<union> existing_words)) 1)
           in if strength > 1 / 10 then
                (let entry = fst st;
                     A1 = append_at (snd st) content_key (content existing);
                     A2 = append_at (setdefault A1 (content existing) []) (content existing) content_key
                 in (entry\<lparr>entry_associations := entry_associations entry @ [thought_id existing]\<rparr>, A2))
              else st
         else st)"

text \<open>The test of the loop body of \<^verbatim>\<open>_build_associations\<close>, under a name.\<close>

definition linked :: "string set \<Rightarrow> thought_entry \<Rightarrow> bool" where
  "linked W p =
     (W \<inter> words_of (content p) \<noteq> {} \<and>
      1 / 10 < real (card (W \<inter> words_of (content p))) / real (max (card (W \<union> words_of (content p))) 1))"

text \<open>
  \<^verbatim>\<open>_build_associations(entry)\<close>. The caller has just appended \<open>entry\<close> to
  \<^verbatim>\<open>self.thoughts\<close>, so the loop over \<^verbatim>\<open>self.thoughts[:-1]\<close> visits the entries stored
  before it, and the ids appended to \<^verbatim>\<open>entry['associations']\<close> show in the last element
  of \<^verbatim>\<open>self.thoughts\<close>, which is the same object.
\<close>

definition build_associations :: "thought_entry \<Rightarrow> mind \<Rightarrow> mind" where
  "build_associations entry s =
     (let words = words_of (content entry);
          content_key = content entry;
          A0 = setdefault (associations s) content_key [];
          st = foldl (assoc_step words content_key) (entry, A0) (butlast (thoughts s))
      in s\<lparr>associations := snd st, thoughts := butlast (thoughts s) @ [fst st]\<rparr>)"

section \<open>Ingestion\<close>

text \<open>
  Two calls in the body of the loop of \<^verbatim>\<open>expand\<close> can raise: \<^verbatim>\<open>str(thought)\<close>, before
  anything is changed, and \<^verbatim>\<open>thought_str.encode()\<close>, after the raw string is appended.
  \<open>expand_step\<close> below models both. \<open>insert_item\<close> is the body once both have
  returned, up to and including the call of \<^verbatim>\<open>_build_associations\<close>: nothing else in
  it raises. \<open>now\<close> is the reading of the clock for this item.
\<close>

definition insert_item :: "env \<Rightarrow> pyfloat \<Rightarrow> real \<Rightarrow> pyval \<Rightarrow> mind \<Rightarrow> mind" where
  "insert_item E imp now v s =
     (let thought_str = py_str E v;
          s1 = s\<lparr>raw_thoughts := raw_thoughts s @ [thought_str]\<rparr>;
          entry = \<lparr>content = thought_str, importance = imp, timestamp = now,
                   thought_id = take 12 (md5_hexdigest E thought_str), depth = 0,
                   entry_associations = []\<rparr>;
          s2 = s1\<lparr>thoughts := thoughts s1 @ [entry]\<rparr>;
          s3 = s2\<lparr>importance_scores := (importance_scores s2)(thought_str \<mapsto> imp)\<rparr>;
          s4 = s3\<lparr>thought_frequency := (thought_frequency s3)
                  (thought_str \<mapsto> (case thought_frequency s3 thought_str of None \<Rightarrow> 0 | Some n \<Rightarrow> n) + 1)\<rparr>
      in build_associations entry s4)"

text \<open>
  The whole body once the two calls have returned: the insertion, then the eviction when
  over capacity.
\<close>

definition expand_item :: "env \<Rightarrow> pyfloat \<Rightarrow> real \<Rightarrow> pyval \<Rightarrow> mind \<Rightarrow> mind" where
  "expand_item E imp now v s =
     (let s5 = insert_item E imp now v s
      in if int (length (thoughts s5)) > capacity s5 then evict_least_important s5 else s5)"

text \<open>
  One run of the body of the loop: the exception raised, if any, and the state left.
  When \<^verbatim>\<open>str\<close> raises the state is as before; when \<^verbatim>\<open>encode\<close> raises the raw string
  has been appended and nothing else is done.
\<close>

definition expand_step :: "env \<Rightarrow> pyfloat \<Rightarrow> real \<Rightarrow> pyval \<Rightarrow> mind \<Rightarrow> py_error option \<times> mind" where
  "expand_step E imp now v s =
     (case str_error E v of
        Some e \<Rightarrow> (Some e, s)
      | None \<Rightarrow>
          (case encode_raises E (py_str E v) of
             Some e \<Rightarrow> (Some e, s\<lparr>raw_thoughts := raw_thoughts s @ [py_str E v]\<rparr>)
           | None \<Rightarrow> (None, expand_item E imp now v s)))"

text \<open>\<^verbatim>\<open>if not isinstance(thoughts, list): thoughts = [thoughts]\<close>.\<close>

fun as_items :: "pyval \<Rightarrow> pyval list" where
  "as_items (PyList xs) = xs"
| "as_items v = [v]"

text \<open>
  The loop of \<^verbatim>\<open>expand\<close> over a list that the loop does not change; \<open>clk k\<close> is the
  reading of the clock for the item at position \<open>k\<close> of the call. An exception ends
  the loop and the call, and the state stays as the raising item left it.
\<close>

fun expand_loop ::
  "env \<Rightarrow> pyfloat \<Rightarrow> (nat \<Rightarrow> real) \<Rightarrow> nat \<Rightarrow> pyval list \<Rightarrow> mind \<Rightarrow> py_error option \<times> mind" where
  "expand_loop E imp clk k [] s = (None, s)"
| "expand_loop E imp clk k (v # vs) s =
     (case expand_step E imp (clk k) v s of
        (Some e, s') \<Rightarrow> (Some e, s')
      | (None, s') \<Rightarrow> expand_loop E imp clk (Suc k) vs s')"

text \<open>
  The end of \<^verbatim>\<open>expand\<close>: the exception goes to the caller, or the method returns
  \<^verbatim>\<open>self.raw_thoughts\<close>.
\<close>

definition finish :: "py_error option \<times> mind \<Rightarrow> (py_error + string list) \<times> mind" where
  "finish r =
     (case fst r of
        Some e \<Rightarrow> (Inl e, snd r)
      | None \<Rightarrow> (Inr (raw_thoughts (snd r)), snd r))"

text \<open>
  \<^verbatim>\<open>expand(thoughts, importance)\<close> on a value: the value returned or the exception
  raised, and the state left.
\<close>

definition expand ::
  "env \<Rightarrow> pyval \<Rightarrow> pyfloat \<Rightarrow> (nat \<Rightarrow> real) \<Rightarrow> mind \<Rightarrow> (py_error + string list) \<times> mind" where
  "expand E v imp clk s = finish (expand_loop E imp clk 0 (as_items v) s)"






section \<open>Recall\<close>

text \<open>
  The loop of \<^verbatim>\<open>recall\<close> that fills \<^verbatim>\<open>scored\<close>; the score is the float product of
  the overlap count and the importance.
\<close>

fun score_all :: "env \<Rightarrow> string set \<Rightarrow> thought_entry list \<Rightarrow> scored list" where
  "score_all E query_words [] = []"
| "score_all E query_words (t # ts) =
     (let thought_words = words_of (content t);
          overlap = card (query_words \<inter> thought_words)
      in if overlap > 0
         then \<lparr>thought = t, relevance = float_mul E overlap (importance t)\<rparr> # score_all E query_words ts
         else score_all E query_words ts)"

text \<open>
  \<^verbatim>\<open>scored.sort(key=lambda x: x['relevance'], reverse=True)\<close>. Python's sort uses
  \<^verbatim>\<open><\<close> only and is stable, also with \<^verbatim>\<open>reverse=True\<close>. When no key is NaN the keys
  are ordered by \<^verbatim>\<open><\<close>, and the result is the one stable arrangement in descending
  order, which the insertion sort below computes with the same comparison. With a NaN
  among the keys the result is some rearrangement of the list that depends on the
  implementation: the model takes it from the environment, as far as it is a
  rearrangement.
\<close>

fun insort_desc :: "scored \<Rightarrow> scored list \<Rightarrow> scored list" where
  "insort_desc x [] = [x]"
| "insort_desc x (y # ys) =
     (if flt (relevance x) (relevance y) then y # insort_desc x ys else x # y # ys)"

definition list_sort_desc :: "env \<Rightarrow> scored list \<Rightarrow> scored list" where
  "list_sort_desc E xs =
     (if NaN \<in> set (map relevance xs)
      then (if mset (nan_sort E xs) = mset xs then nan_sort E xs else xs)
      else foldr insort_desc xs [])"

definition ranked :: "env \<Rightarrow> mind \<Rightarrow> string \<Rightarrow> scored list" where
  "ranked E s query = list_sort_desc E (score_all E (words_of query) (thoughts s))"

text \<open>\<^verbatim>\<open>xs[:k]\<close>: a negative \<open>k\<close> counts from the end.\<close>

definition slice_to :: "'a list \<Rightarrow> int \<Rightarrow> 'a list" where
  "slice_to xs k = (if k < 0 then take (nat (int (length xs) + k)) xs else take (nat k) xs)"

definition recall :: "env \<Rightarrow> mind \<Rightarrow> string \<Rightarrow> int \<Rightarrow> scored list" where
  "recall E s query top_k = slice_to (ranked E s query) top_k"

section \<open>Evolution and novelty\<close>

text \<open>The merging loop of \<^verbatim>\<open>evolve_thought\<close> over \<^verbatim>\<open>words_a + words_b\<close>.\<close>

fun merge_loop :: "string set \<Rightarrow> string list \<Rightarrow> string list \<Rightarrow> string list" where
  "merge_loop seen evolved_words [] = evolved_words"
| "merge_loop seen evolved_words (w # ws) =
     (if lower w \<notin> seen then merge_loop (insert (lower w) seen) (evolved_words @ [w]) ws
      else merge_loop seen evolved_words ws)"

definition evolve_thought :: "env \<Rightarrow> mind \<Rightarrow> string \<Rightarrow> int \<Rightarrow> real \<Rightarrow> string \<times> mind" where
  "evolve_thought E s thought_text depth_arg now =
     (if depth_arg \<ge> MAX_THOUGHT_DEPTH then (thought_text, s)
      else
        case recall E s thought_text 3 of
          [] \<Rightarrow> (thought_text, s)
        | best # _ \<Rightarrow>
            let top_related = content (thought best);
                words_a = split thought_text;
                words_b = split top_related;
                evolved_words = merge_loop {} [] (words_a @ words_b);
                evolved_text = join '' '' evolved_words
            in (evolved_text,
                s\<lparr>evolution_history := evolution_history s @
                    [\<lparr>original = thought_text, evolved = evolved_text,
                      evolution_depth = depth_arg, evolution_timestamp = now\<rparr>]\<rparr>))"

text \<open>\<^verbatim>\<open>detect_novelty\<close>: \<^verbatim>\<open>max(0.0, 1.0 - related[0]['relevance'])\<close> in floats.\<close>

definition detect_novelty :: "env \<Rightarrow> mind \<Rightarrow> string \<Rightarrow> pyfloat" where
  "detect_novelty E s thought_text =
     (if thoughts s = [] then Fin 1
      else
        case recall E s thought_text 1 of
          [] \<Rightarrow> Fin 1
        | best # _ \<Rightarrow> py_max (Fin 0) (float_sub E (Fin 1) (relevance best)))"

section \<open>Sequences of calls\<close>

text \<open>
  A call of \<^verbatim>\<open>expand\<close> is its argument, its importance and the clock readings of its
  items. \<open>run_calls\<close> makes the calls one after the other on the same object; a caller
  that gets an exception goes on with the object as the call left it.
\<close>

type_synonym call = "pyval \<times> pyfloat \<times> (nat \<Rightarrow> real)"

definition run_calls :: "env \<Rightarrow> call list \<Rightarrow> mind \<Rightarrow> mind" where
  "run_calls E calls s = foldl (\<lambda>s (v, imp, clk). snd (expand E v imp clk s)) s calls"

text \<open>
  Whether the body of the loop raises on a value depends on the value alone. The items
  of a list that the loop gets to are those up to and including the first that raises.
\<close>

definition item_raises :: "env \<Rightarrow> pyval \<Rightarrow> bool" where
  "item_raises E v = (\<not> (str_error E v = None \<and> encode_raises E (py_str E v) = None))"

fun attempted :: "env \<Rightarrow> pyval list \<Rightarrow> pyval list" where
  "attempted E [] = []"
| "attempted E (v # vs) = (if item_raises E v then [v] else v # attempted E vs)"

text \<open>
  The individual insertions a call is made of, each with its importance and clock
  reading, and the state after a sequence of individual insertions.
\<close>

definition call_items :: "env \<Rightarrow> call \<Rightarrow> (pyfloat \<times> real \<times> pyval) list" where
  "call_items E c =
     (case c of (v, imp, clk) \<Rightarrow>
        map (\<lambda>(k, x). (imp, clk k, x)) (enumerate 0 (attempted E (as_items v))))"

definition run_items :: "env \<Rightarrow> (pyfloat \<times> real \<times> pyval) list \<Rightarrow> mind \<Rightarrow> mind" where
  "run_items E its s = foldl (\<lambda>s (imp, now, x). snd (expand_step E imp now x s)) s its"

section \<open>The specification's own words\<close>

text \<open>
  Following the specification: the stored entries whose lower-cased word set meets the
  query's, in store order, each paired with its overlap count times its importance (the
  float product).
\<close>

definition matching_pairs :: "env \<Rightarrow> mind \<Rightarrow> string \<Rightarrow> scored list" where
  "matching_pairs E s q =
     map (\<lambda>t. \<lparr>thought = t,
                relevance = float_mul E (card (words_of q \<inter> words_of (content t))) (importance t)\<rparr>)
       (filter (\<lambda>t. words_of q \<inter> words_of (content t) \<noteq> {}) (thoughts s))"

text \<open>
  Following the specification: the size of the intersection of the two lower-cased word
  sets over the size of their union (zero when both sets are empty).
\<close>

definition jaccard :: "string \<Rightarrow> string \<Rightarrow> real" where
  "jaccard a b =
     (if words_of a \<union> words_of b = {} then 0
      else real (card (words_of a \<inter> words_of b)) / real (card (words_of a \<union> words_of b)))"

section \<open>Example stores\<close>

text \<open>
  The environment and the stores the examples below are evaluated on. In \<open>demo_env\<close>
  the id of a content is the content itself, every value that is not a string has the
  string form \<^verbatim>\<open>?\<close>, nothing raises, the float operations are the exact ones and a
  list with a NaN key is left as it is.
\<close>

definition demo_env :: env where
  "demo_env =
     \<lparr>str_other = (\<lambda>_. ''?''),
      str_raises = (\<lambda>_. None),
      md5_hexdigest = (\<lambda>s. s),
      encode_raises = (\<lambda>_. None),
      float_mul = exact_mul,
      float_sub = exact_sub,
      nan_sort = (\<lambda>xs. xs)\<rparr>"




definition cat_calls :: "call list" where
  "cat_calls =
     [(PyList [PyStr ''the cat sat'', PyStr ''the cat ran''], Fin 1, (\<lambda>_. 0)),
      (PyStr ''a dog barked'', Fin 5, (\<lambda>_. 0))]"

definition cat_store :: mind where
  "cat_store = run_calls demo_env [(PyStr ''the cat sat'', Fin 1, (\<lambda>_. 0))] (init_mind 10000 0)"

definition x_store :: mind where
  "x_store =
     run_calls demo_env [(PyList [PyStr ''x a'', PyStr ''x b''], Fin 1, (\<lambda>_. 0))] (init_mind 10000 0)"

definition rank_store :: mind where
  "rank_store =
     run_calls demo_env
       [(PyStr ''x a'', Fin 1, (\<lambda>_. 0)), (PyStr ''X b'', Fin 3, (\<lambda>_. 0)),
        (PyStr ''x c'', Fin 2, (\<lambda>_. 0)), (PyStr ''y'', Fin 9, (\<lambda>_. 0))]
       (init_mind 10000 0)"

definition pie_store :: mind where
  "pie_store = run_calls demo_env [(PyStr ''apple pie recipe'', Fin 1, (\<lambda>_. 0))] (init_mind 10000 0)"

text \<open>A store whose first entry has the importance NaN.\<close>

definition nan_store :: mind where
  "nan_store =
     run_calls demo_env
       [(PyStr ''a'', NaN, (\<lambda>_. 0)), (PyStr ''b'', Fin 1, (\<lambda>_. 0)),
        (PyStr ''c'', Fin (1 / 2), (\<lambda>_. 0))]
       (init_mind 10000 0)"

text \<open>
  A store written out field by field; its raw-content list holds the string \<^verbatim>\<open>a\<close>
  twice.
\<close>

definition demo_store :: mind where
  "demo_store =
     \<lparr>thoughts =
        [\<lparr>content = ''b'', importance = Fin 2, timestamp = 0, thought_id = ''id-b'', depth = 0,
          entry_associations = []\<rparr>,
         \<lparr>content = ''a'', importance = Fin 1, timestamp = 0, thought_id = ''id-a'', depth = 0,
          entry_associations = []\<rparr>,
         \<lparr>content = ''a c'', importance = Fin 1, timestamp = 0, thought_id = ''id-ac'', depth = 0,
          entry_associations = [''id-a'']\<rparr>],
      raw_thoughts = [''a'', ''b'', ''a'', ''a c''],
      associations = [''b'' \<mapsto> [], ''a'' \<mapsto> [''a c''], ''a c'' \<mapsto> [''a'']],
      importance_scores = [''b'' \<mapsto> Fin 2, ''a'' \<mapsto> Fin 1, ''a c'' \<mapsto> Fin 1],
      thought_frequency = [''b'' \<mapsto> 1, ''a'' \<mapsto> 1, ''a c'' \<mapsto> 1],
      evolution_history = [], capacity = 2, creation_time = 0\<rparr>"

section \<open>Comparing floats\<close>

lemma flt_irrefl: "\<not> flt x x"
  by (cases x) simp_all

lemma flt_trans: "flt x y \<Longrightarrow> flt y z \<Longrightarrow> flt x z"
  by (cases x; cases y; cases z) simp_all

lemma flt_not_NaN: "flt x y \<Longrightarrow> x \<noteq> NaN \<and> y \<noteq> NaN"
  by (cases x; cases y) simp_all

lemma fle_not_NaN: "fle x y \<Longrightarrow> x \<noteq> NaN \<and> y \<noteq> NaN"
  by (auto simp: fle_def dest: flt_not_NaN)

lemma fle_refl: "x \<noteq> NaN \<Longrightarrow> fle x x"
  by (simp add: fle_def)

lemma flt_imp_fle: "flt x y \<Longrightarrow> fle x y"
  by (simp add: fle_def)

lemma not_flt_fle: "x \<noteq> NaN \<Longrightarrow> y \<noteq> NaN \<Longrightarrow> \<not> flt x y \<Longrightarrow> fle y x"
  by (cases x; cases y) (auto simp: fle_def)

lemma fle_not_flt: "fle x y \<Longrightarrow> \<not> flt y x"
  by (cases x; cases y) (auto simp: fle_def)

lemma fle_trans: "fle x y \<Longrightarrow> fle y z \<Longrightarrow> fle x z"
  by (auto simp: fle_def intro: flt_trans)

lemma fle_flt_trans: "fle x y \<Longrightarrow> flt y z \<Longrightarrow> flt x z"
  by (auto simp: fle_def intro: flt_trans)

lemma flt_fle_trans: "flt x y \<Longrightarrow> fle y z \<Longrightarrow> flt x z"
  by (auto simp: fle_def intro: flt_trans)

lemma fle_NaN: "\<not> fle x NaN" "\<not> fle NaN x"
  by (auto dest: fle_not_NaN)

section \<open>The index chosen by the eviction\<close>

lemma min_from_mem: "min_from key b is \<in> insert b (set is)"
  by (induction "is" arbitrary: b) (auto split: if_splits)

lemma min_from_le:
  "NaN \<notin> key ` insert b (set is) \<Longrightarrow> j \<in> insert b (set is) \<Longrightarrow>
   fle (key (min_from key b is)) (key j)"
proof (induction "is" arbitrary: b j)
  case Nil
  then show ?case by (auto intro: fle_refl)
next
  case (Cons i "is")
  let ?b = "if flt (key i) (key b) then i else b"
  have nb: "key b \<noteq> NaN" and ni: "key i \<noteq> NaN"
    using Cons.prems(1) by auto
  have nan: "NaN \<notin> key ` insert ?b (set is)"
    using Cons.prems(1) by auto
  have best: "fle (key (min_from key ?b is)) (key ?b)"
    by (rule Cons.IH [OF nan]) simp
  from Cons.prems(2) consider "j = b" | "j = i" | "j \<in> set is" by auto
  then show ?case
  proof cases
    case 1
    show ?thesis
    proof (cases "flt (key i) (key b)")
      case True
      with best have "fle (key (min_from key i is)) (key i)" by simp
      from fle_flt_trans [OF this True] True 1 show ?thesis
        by (simp add: flt_imp_fle)
    next
      case False
      with best 1 show ?thesis by simp
    qed
  next
    case 2
    show ?thesis
    proof (cases "flt (key i) (key b)")
      case True
      with best 2 show ?thesis by simp
    next
      case False
      with best have "fle (key (min_from key b is)) (key b)" by simp
      moreover have "fle (key b) (key i)"
        using ni nb False by (rule not_flt_fle)
      ultimately have "fle (key (min_from key b is)) (key i)" by (rule fle_trans)
      with False 2 show ?thesis by simp
    qed
  next
    case 3
    then have "j \<in> insert ?b (set is)" by simp
    from Cons.IH [OF nan this] show ?thesis by simp
  qed
qed

lemma min_from_first:
  "NaN \<notin> key ` insert b (set is) \<Longrightarrow> sorted_wrt (<) (b # is) \<Longrightarrow>
   j \<in> insert b (set is) \<Longrightarrow> j < min_from key b is \<Longrightarrow>
   flt (key (min_from key b is)) (key j)"
proof (induction "is" arbitrary: b j)
  case Nil
  then show ?case by simp
next
  case (Cons i "is")
  let ?b = "if flt (key i) (key b) then i else b"
  let ?r = "min_from key ?b is"
  have r: "min_from key b (i # is) = ?r" by simp
  have nb: "key b \<noteq> NaN" and ni: "key i \<noteq> NaN"
    using Cons.prems(1) by auto
  have nan: "NaN \<notin> key ` insert ?b (set is)"
    using Cons.prems(1) by auto
  have srt: "sorted_wrt (<) (?b # is)"
    using Cons.prems(2) by auto
  have le: "fle (key ?r) (key ?b)"
    by (rule min_from_le [OF nan]) simp
  have jr: "j < ?r" using Cons.prems(4) by simp
  from Cons.prems(3) consider "j = b" | "j = i" | "j \<in> set is" by auto
  then have "flt (key ?r) (key j)"
  proof cases
    case 1
    show ?thesis
    proof (cases "flt (key i) (key b)")
      case True
      with le have "fle (key ?r) (key i)" by simp
      from fle_flt_trans [OF this True] 1 show ?thesis by simp
    next
      case False
      then have b: "?b = b" by simp
      have "b \<in> insert ?b (set is)" using b by simp
      from Cons.IH [OF nan srt this] jr 1 show ?thesis by simp
    qed
  next
    case 2
    show ?thesis
    proof (cases "flt (key i) (key b)")
      case True
      then have "i \<in> insert ?b (set is)" by simp
      from Cons.IH [OF nan srt this] jr 2 show ?thesis by simp
    next
      case False
      then have b: "?b = b" by simp
      have "b < i" using Cons.prems(2) by simp
      with jr 2 have br: "b < ?r" by simp
      have "b \<in> insert ?b (set is)" using b by simp
      from Cons.IH [OF nan srt this br] have "flt (key ?r) (key b)" .
      moreover have "fle (key b) (key i)"
        using ni nb False by (rule not_flt_fle)
      ultimately have "flt (key ?r) (key i)" by (rule flt_fle_trans)
      with 2 show ?thesis by simp
    qed
  next
    case 3
    then have "j \<in> insert ?b (set is)" by simp
    from Cons.IH [OF nan srt this jr] show ?thesis .
  qed
  then show ?case by (simp only: r)
qed

lemma min_index_less: "ts \<noteq> [] \<Longrightarrow> min_index ts < length ts"
  using min_from_mem [of "\<lambda>i. importance (ts ! i)" 0 "[1..<length ts]"]
  by (auto simp: min_index_def)

lemma indices_no_NaN:
  assumes "NaN \<notin> importance ` set ts" and "ts \<noteq> []"
  shows "NaN \<notin> (\<lambda>i. importance (ts ! i)) ` insert 0 (set [1..<length ts])"
proof
  assume "NaN \<in> (\<lambda>i. importance (ts ! i)) ` insert 0 (set [1..<length ts])"
  then obtain i where "i < length ts" "importance (ts ! i) = NaN"
    using assms(2) by (fastforce simp: neq_Nil_conv)
  then have "NaN \<in> importance ` set ts"
    by (metis imageI nth_mem)
  with assms(1) show False by simp
qed

lemma min_index_le:
  assumes "NaN \<notin> importance ` set ts" and "j < length ts"
  shows "fle (importance (ts ! min_index ts)) (importance (ts ! j))"
proof -
  have ne: "ts \<noteq> []" using assms(2) by auto
  have "j \<in> insert 0 (set [1..<length ts])" using assms(2) by auto
  from min_from_le [OF indices_no_NaN [OF assms(1) ne] this] show ?thesis
    by (simp add: min_index_def)
qed

lemma min_index_first:
  assumes "NaN \<notin> importance ` set ts" and "j < min_index ts"
  shows "flt (importance (ts ! min_index ts)) (importance (ts ! j))"
proof -
  have ne: "ts \<noteq> []" using assms(2) by (auto simp: min_index_def)
  then have "min_index ts < length ts" by (rule min_index_less)
  with assms(2) have mem: "j \<in> insert 0 (set [1..<length ts])" by auto
  have srt: "sorted_wrt (<) (0 # [1..<length ts])" by simp
  from min_from_first [OF indices_no_NaN [OF assms(1) ne] srt mem] assms(2)
  show ?thesis by (simp add: min_index_def)
qed

section \<open>Eviction: what is removed and what is kept\<close>

lemma subseq_pop: "subseq (take i xs @ drop (Suc i) xs) xs"
proof -
  have "suffix (drop (Suc i) xs) (drop i xs)"
    by (metis Suc_eq_plus1 add.commute drop_drop suffix_drop)
  then have "subseq (drop (Suc i) xs) (drop i xs)"
    by (rule suffix_imp_subseq)
  then have "subseq (take i xs @ drop (Suc i) xs) (take i xs @ drop i xs)"
    by (rule iffD2 [OF subseq_append'])
  then show ?thesis by simp
qed

lemma evict_thoughts:
  "thoughts s \<noteq> [] \<Longrightarrow> thoughts (evict_least_important s) =
     take (min_index (thoughts s)) (thoughts s) @ drop (Suc (min_index (thoughts s))) (thoughts s)"
  by (simp add: evict_least_important_def Let_def)

lemma evict_raw:
  "thoughts s \<noteq> [] \<Longrightarrow> raw_thoughts (evict_least_important s) =
     remove1 (content (thoughts s ! min_index (thoughts s))) (raw_thoughts s)"
  by (simp add: evict_least_important_def Let_def remove1_idem)

lemma evict_empty: "thoughts s = [] \<Longrightarrow> evict_least_important s = s"
  by (simp add: evict_least_important_def)

lemma evict_length:
  "thoughts s \<noteq> [] \<Longrightarrow> length (thoughts (evict_least_important s)) = length (thoughts s) - 1"
  using min_index_less [of "thoughts s"] by (simp add: evict_thoughts)

text \<open>
  C3, as amended. Eviction on an empty store changes nothing. On a non-empty store the
  entry list loses exactly one element and the raw-content list loses the first
  occurrence of that entry's content string. When no importance in the store is NaN, the
  entry removed is the first one, in store order, whose importance is the minimum over all
  entries: its importance is below or equal to every importance in the store, and no
  earlier entry has the same importance.
\<close>

theorem eviction_selection:
  "(thoughts s = [] \<longrightarrow> evict_least_important s = s) \<and>
   (thoughts s \<noteq> [] \<longrightarrow>
      (\<exists>i<length (thoughts s).
         thoughts (evict_least_important s) = take i (thoughts s) @ drop (Suc i) (thoughts s) \<and>
         raw_thoughts (evict_least_important s) =
           remove1 (content (thoughts s ! i)) (raw_thoughts s) \<and>
         (NaN \<notin> importance ` set (thoughts s) \<longrightarrow>
            (\<forall>j<length (thoughts s).
               fle (importance (thoughts s ! i)) (importance (thoughts s ! j))) \<and>
            (\<forall>j<i. importance (thoughts s ! j) \<noteq> importance (thoughts s ! i)))))"
proof (intro conjI impI)
  assume "thoughts s = []"
  then show "evict_least_important s = s" by (rule evict_empty)
next
  assume ne: "thoughts s \<noteq> []"
  let ?i = "min_index (thoughts s)"
  have less: "?i < length (thoughts s)" using ne by (rule min_index_less)
  have least: "\<forall>j<length (thoughts s).
      fle (importance (thoughts s ! ?i)) (importance (thoughts s ! j))"
    if "NaN \<notin> importance ` set (thoughts s)"
    using that by (simp add: min_index_le)
  have first: "\<forall>j<?i. importance (thoughts s ! j) \<noteq> importance (thoughts s ! ?i)"
    if "NaN \<notin> importance ` set (thoughts s)"
  proof (intro allI impI)
    fix j assume "j < ?i"
    with that have "flt (importance (thoughts s ! ?i)) (importance (thoughts s ! j))"
      by (rule min_index_first)
    then show "importance (thoughts s ! j) \<noteq> importance (thoughts s ! ?i)"
      using flt_irrefl by auto
  qed
  show "\<exists>i<length (thoughts s).
         thoughts (evict_least_important s) = take i (thoughts s) @ drop (Suc i) (thoughts s) \<and>
         raw_thoughts (evict_least_important s) =
           remove1 (content (thoughts s ! i)) (raw_thoughts s) \<and>
         (NaN \<notin> importance ` set (thoughts s) \<longrightarrow>
            (\<forall>j<length (thoughts s).
               fle (importance (thoughts s ! i)) (importance (thoughts s ! j))) \<and>
            (\<forall>j<i. importance (thoughts s ! j) \<noteq> importance (thoughts s ! i)))"
    using less evict_thoughts [OF ne] evict_raw [OF ne] least first by blast
qed

theorem eviction_selection_witness:
  "thoughts demo_store \<noteq> [] \<and> NaN \<notin> importance ` set (thoughts demo_store) \<and>
   (\<exists>i<length (thoughts demo_store).
      thoughts (evict_least_important demo_store) =
        take i (thoughts demo_store) @ drop (Suc i) (thoughts demo_store) \<and>
      raw_thoughts (evict_least_important demo_store) =
        remove1 (content (thoughts demo_store ! i)) (raw_thoughts demo_store) \<and>
      (\<forall>j<length (thoughts demo_store).
         fle (importance (thoughts demo_store ! i)) (importance (thoughts demo_store ! j))) \<and>
      (\<forall>j<i. importance (thoughts demo_store ! j) \<noteq> importance (thoughts demo_store ! i)))"
proof -
  have ne: "thoughts demo_store \<noteq> []" by (simp add: demo_store_def)
  have nan: "NaN \<notin> importance ` set (thoughts demo_store)" by (simp add: demo_store_def)
  from eviction_selection [of demo_store] ne nan show ?thesis by blast
qed

text \<open>
  With a NaN importance the claim fails: \<^verbatim>\<open>min\<close> never replaces a NaN key. The store
  \<open>nan_store\<close> holds \<^verbatim>\<open>a\<close> with importance NaN, \<^verbatim>\<open>b\<close> with 1.0 and \<^verbatim>\<open>c\<close> with 0.5;
  the eviction removes \<^verbatim>\<open>a\<close> and keeps \<^verbatim>\<open>c\<close>, and no entry of the store has an
  importance below or equal to all the others.
\<close>

theorem eviction_nan_counterexample:
  "map (\<lambda>e. (content e, importance e)) (thoughts nan_store) =
     [(''a'', NaN), (''b'', Fin 1), (''c'', Fin (1 / 2))] \<and>
   map content (thoughts (evict_least_important nan_store)) = [''b'', ''c''] \<and>
   \<not> (\<exists>i<length (thoughts nan_store).
        (\<forall>j<length (thoughts nan_store).
           fle (importance (thoughts nan_store ! i)) (importance (thoughts nan_store ! j))))"
proof -
  have 1: "map (\<lambda>e. (content e, importance e)) (thoughts nan_store) =
     [(''a'', NaN), (''b'', Fin 1), (''c'', Fin (1 / 2))]"
    by code_simp
  have 2: "map content (thoughts (evict_least_important nan_store)) = [''b'', ''c'']"
    by code_simp
  from 1 have len: "0 < length (thoughts nan_store)"
    and first: "importance (thoughts nan_store ! 0) = NaN"
    by (auto simp: map_eq_Cons_conv)
  have 3: "\<not> (\<exists>i<length (thoughts nan_store).
        (\<forall>j<length (thoughts nan_store).
           fle (importance (thoughts nan_store ! i)) (importance (thoughts nan_store ! j))))"
  proof
    assume "\<exists>i<length (thoughts nan_store).
        (\<forall>j<length (thoughts nan_store).
           fle (importance (thoughts nan_store ! i)) (importance (thoughts nan_store ! j)))"
    then obtain i where "fle (importance (thoughts nan_store ! i)) (importance (thoughts nan_store ! 0))"
      using len by blast
    with first show False by (simp add: fle_NaN)
  qed
  from 1 2 3 show ?thesis by simp
qed

lemma demo_evicted:
  "map content (thoughts (evict_least_important demo_store)) = [''b'', ''a c''] \<and>
   raw_thoughts (evict_least_important demo_store) = [''b'', ''a'', ''a c'']"
  by code_simp

text \<open>
  C9. Eviction leaves the adjacency map as it is, the key of the evicted content
  included, and the entries that stay are the old entries unchanged and in their order
  (so the id list of every other entry is what it was); the importance scores and the
  frequency counts are kept too. Nothing that refers to the evicted entry is pruned.
\<close>

theorem eviction_keeps_associations:
  "associations (evict_least_important s) = associations s \<and>
   subseq (thoughts (evict_least_important s)) (thoughts s) \<and>
   importance_scores (evict_least_important s) = importance_scores s \<and>
   thought_frequency (evict_least_important s) = thought_frequency s"
  by (simp add: evict_least_important_def Let_def subseq_pop)

theorem eviction_keeps_associations_witness:
  "associations (evict_least_important demo_store) ''a'' = Some [''a c''] \<and>
   associations (evict_least_important demo_store) ''a c'' = Some [''a''] \<and>
   map entry_associations (thoughts (evict_least_important demo_store)) = [[], [''id-a'']] \<and>
   map thought_id (thoughts (evict_least_important demo_store)) = [''id-b'', ''id-ac'']"
proof -
  have "associations (evict_least_important demo_store) = associations demo_store"
    using eviction_keeps_associations [of demo_store] by blast
  moreover have "associations demo_store ''a'' = Some [''a c'']"
    and "associations demo_store ''a c'' = Some [''a'']"
    by (simp_all add: demo_store_def)
  moreover have "map entry_associations (thoughts (evict_least_important demo_store)) = [[], [''id-a'']]"
    and "map thought_id (thoughts (evict_least_important demo_store)) = [''id-b'', ''id-ac'']"
    by code_simp+
  ultimately show ?thesis by simp
qed

section \<open>Insertion: what one item changes\<close>

lemma assoc_step_alt:
  "assoc_step W k st p =
     (if linked W p
      then ((fst st)\<lparr>entry_associations := entry_associations (fst st) @ [thought_id p]\<rparr>,
            append_at (setdefault (append_at (snd st) k (content p)) (content p) []) (content p) k)
      else st)"
  by (simp add: assoc_step_def linked_def Let_def)

lemma fst_foldl_assoc:
  "fst (foldl (assoc_step W k) (e, A) ps) =
     e\<lparr>entry_associations := entry_associations e @ map thought_id (filter (linked W) ps)\<rparr>"
  by (induction ps arbitrary: e A) (simp_all add: assoc_step_alt)

lemma build_associations_thoughts:
  "thoughts (build_associations e s) =
     butlast (thoughts s) @
       [e\<lparr>entry_associations := entry_associations e @
            map thought_id (filter (linked (words_of (content e))) (butlast (thoughts s)))\<rparr>]"
  by (simp add: build_associations_def Let_def fst_foldl_assoc)

lemma build_associations_frame:
  "raw_thoughts (build_associations e s) = raw_thoughts s"
  "capacity (build_associations e s) = capacity s"
  "importance_scores (build_associations e s) = importance_scores s"
  "thought_frequency (build_associations e s) = thought_frequency s"
  "evolution_history (build_associations e s) = evolution_history s"
  by (simp_all add: build_associations_def Let_def)

lemma insert_item_thoughts:
  "thoughts (insert_item E imp now v s) =
     thoughts s @
       [\<lparr>content = py_str E v, importance = imp, timestamp = now,
         thought_id = take 12 (md5_hexdigest E (py_str E v)), depth = 0,
         entry_associations = map thought_id (filter (linked (words_of (py_str E v))) (thoughts s))\<rparr>]"
  by (simp add: insert_item_def Let_def build_associations_thoughts)


lemma insert_item_capacity: "capacity (insert_item E imp now v s) = capacity s"
  by (simp add: insert_item_def Let_def build_associations_frame)

lemma evict_capacity: "capacity (evict_least_important s) = capacity s"
  by (simp add: evict_least_important_def Let_def)

lemma expand_item_capacity: "capacity (expand_item E imp now v s) = capacity s"
  by (simp add: expand_item_def Let_def insert_item_capacity evict_capacity)

lemma expand_item_alt:
  "expand_item E imp now v s =
     (if int (length (thoughts s)) + 1 > capacity s
      then evict_least_important (insert_item E imp now v s) else insert_item E imp now v s)"
  by (simp add: expand_item_def Let_def insert_item_capacity insert_item_thoughts)

lemma expand_item_length:
  "length (thoughts (expand_item E imp now v s)) =
     (if int (length (thoughts s)) + 1 > capacity s then length (thoughts s)
      else length (thoughts s) + 1)"
  by (simp add: expand_item_alt evict_length insert_item_thoughts)

section \<open>The capacity bound\<close>

lemma expand_step_raises: "fst (expand_step E imp now v s) \<noteq> None \<longleftrightarrow> item_raises E v"
  by (simp add: expand_step_def item_raises_def split: option.splits)

lemma expand_step_capacity: "capacity (snd (expand_step E imp now v s)) = capacity s"
  by (simp add: expand_step_def expand_item_capacity split: option.splits)

lemma expand_step_thoughts:
  "thoughts (snd (expand_step E imp now v s)) =
     (if item_raises E v then thoughts s else thoughts (expand_item E imp now v s))"
  by (simp add: expand_step_def item_raises_def split: option.splits)

lemma expand_loop_items:
  "snd (expand_loop E imp clk k xs s) =
     run_items E (map (\<lambda>(j, x). (imp, clk j, x)) (enumerate k (attempted E xs))) s"
proof (induction xs arbitrary: k s)
  case Nil
  show ?case by (simp add: run_items_def)
next
  case (Cons v vs)
  obtain r s' where step: "expand_step E imp (clk k) v s = (r, s')"
    by (cases "expand_step E imp (clk k) v s")
  show ?case
  proof (cases "item_raises E v")
    case True
    with expand_step_raises [of E imp "clk k" v s] step have "r \<noteq> None" by simp
    with True step show ?thesis by (auto simp: run_items_def)
  next
    case False
    with expand_step_raises [of E imp "clk k" v s] step have "r = None" by simp
    with False step Cons.IH [of "Suc k" s'] show ?thesis by (simp add: run_items_def)
  qed
qed

lemma snd_finish: "snd (finish r) = snd r"
  by (simp add: finish_def split: option.splits)

lemma expand_items: "snd (expand E v imp clk s) = run_items E (call_items E (v, imp, clk)) s"
  by (simp add: expand_def snd_finish call_items_def expand_loop_items)

lemma run_items_append: "run_items E (xs @ ys) s = run_items E ys (run_items E xs s)"
  by (simp add: run_items_def)

lemma run_calls_items: "run_calls E calls s = run_items E (concat (map (call_items E) calls)) s"
proof (induction calls arbitrary: s)
  case Nil
  show ?case by (simp add: run_calls_def run_items_def)
next
  case (Cons c calls)
  obtain v imp clk where c: "c = (v, imp, clk)" by (cases c)
  have "run_calls E (c # calls) s = run_calls E calls (snd (expand E v imp clk s))"
    by (simp add: run_calls_def c)
  also have "\<dots> = run_items E (concat (map (call_items E) calls)) (run_items E (call_items E c) s)"
    by (simp add: Cons.IH expand_items c)
  finally show ?case by (simp add: run_items_append)
qed

lemma run_items_capacity: "capacity (run_items E its s) = capacity s"
  by (induction its arbitrary: s) (simp_all add: run_items_def expand_step_capacity split: prod.splits)

lemma expand_item_bound:
  "int (length (thoughts s)) \<le> capacity s \<Longrightarrow>
   int (length (thoughts (expand_item E imp now v s))) \<le> capacity s"
  by (simp add: expand_item_length)

lemma expand_step_bound:
  "int (length (thoughts s)) \<le> capacity s \<Longrightarrow>
   int (length (thoughts (snd (expand_step E imp now v s)))) \<le> capacity s"
  by (simp add: expand_step_thoughts expand_item_bound)

lemma run_items_bound:
  "int (length (thoughts s)) \<le> capacity s \<Longrightarrow>
   int (length (thoughts (run_items E its s))) \<le> capacity s"
proof (induction its arbitrary: s)
  case Nil
  then show ?case by (simp add: run_items_def)
next
  case (Cons it its)
  obtain imp now v where it: "it = (imp, now, v)" by (cases it)
  have step: "run_items E (it # its) s = run_items E its (snd (expand_step E imp now v s))"
    by (simp add: run_items_def it)
  have "int (length (thoughts (snd (expand_step E imp now v s)))) \<le>
        capacity (snd (expand_step E imp now v s))"
    using Cons.prems by (simp add: expand_step_bound expand_step_capacity)
  from Cons.IH [OF this] show ?case by (simp add: step expand_step_capacity)
qed

text \<open>
  C1, as amended. For a capacity that is not negative: a sequence of calls of
  \<^verbatim>\<open>expand\<close> on a fresh object is the sequence of its individual insertions (the items
  the loops get to, a raising one included), and after every one of them (after every
  prefix of that sequence) the store holds at most \<open>capacity\<close> entries. For any
  capacity, one item appends one entry, and the eviction runs once exactly when that
  pushes the count above the capacity, which takes the count back by one.
\<close>

theorem capacity_invariant:
  "(0 \<le> cap \<longrightarrow>
      (\<forall>its. prefix its (concat (map (call_items E) calls)) \<longrightarrow>
         int (length (thoughts (run_items E its (init_mind cap t0)))) \<le> cap)) \<and>
   run_calls E calls s = run_items E (concat (map (call_items E) calls)) s \<and>
   length (thoughts (insert_item E imp now v s)) = length (thoughts s) + 1 \<and>
   expand_item E imp now v s =
     (if int (length (thoughts s)) + 1 > capacity s
      then evict_least_important (insert_item E imp now v s) else insert_item E imp now v s) \<and>
   length (thoughts (expand_item E imp now v s)) =
     (if int (length (thoughts s)) + 1 > capacity s then length (thoughts s)
      else length (thoughts s) + 1)"
proof (intro conjI impI allI)
  fix its
  assume "0 \<le> cap"
  then have "int (length (thoughts (init_mind cap t0))) \<le> capacity (init_mind cap t0)"
    by (simp add: init_mind_def)
  from run_items_bound [OF this, of E its]
  show "int (length (thoughts (run_items E its (init_mind cap t0)))) \<le> cap"
    by (simp add: init_mind_def)
next
  show "run_calls E calls s = run_items E (concat (map (call_items E) calls)) s"
    by (rule run_calls_items)
next
  show "length (thoughts (insert_item E imp now v s)) = length (thoughts s) + 1"
    by (simp add: insert_item_thoughts)
next
  show "expand_item E imp now v s =
     (if int (length (thoughts s)) + 1 > capacity s
      then evict_least_important (insert_item E imp now v s) else insert_item E imp now v s)"
    by (rule expand_item_alt)
next
  show "length (thoughts (expand_item E imp now v s)) =
     (if int (length (thoughts s)) + 1 > capacity s then length (thoughts s)
      else length (thoughts s) + 1)"
    by (rule expand_item_length)
qed

theorem capacity_invariant_witness:
  "(0::int) \<le> 2 \<and>
   prefix (concat (map (call_items demo_env) cat_calls)) (concat (map (call_items demo_env) cat_calls)) \<and>
   int (length (thoughts (run_calls demo_env cat_calls (init_mind 2 0)))) \<le> 2 \<and>
   map content (thoughts (run_calls demo_env cat_calls (init_mind 2 0))) =
     [''the cat ran'', ''a dog barked'']"
proof -
  have c: "(0::int) \<le> 2" by simp
  have p: "prefix (concat (map (call_items demo_env) cat_calls)) (concat (map (call_items demo_env) cat_calls))"
    by simp
  from capacity_invariant [of 2 demo_env cat_calls 0 "init_mind 2 0"] c p
  have "int (length (thoughts (run_calls demo_env cat_calls (init_mind 2 0)))) \<le> 2"
    by simp
  moreover have "map content (thoughts (run_calls demo_env cat_calls (init_mind 2 0))) =
     [''the cat ran'', ''a dog barked'']"
    by code_simp
  ultimately show ?thesis using p by simp
qed

theorem capacity_negative_counterexample:
  "\<not> int (length (thoughts (run_calls demo_env [(PyStr ''a'', Fin 1, (\<lambda>_. 0))] (init_mind (- 1) 0))))
       \<le> capacity (run_calls demo_env [(PyStr ''a'', Fin 1, (\<lambda>_. 0))] (init_mind (- 1) 0))"
  by code_simp

section \<open>Recall: the ranking and the slice\<close>

lemma finite_words_of: "finite (words_of s)"
  by (simp add: words_of_def)

lemma score_all_matching:
  "score_all E W ts =
     map (\<lambda>t. \<lparr>thought = t, relevance = float_mul E (card (W \<inter> words_of (content t))) (importance t)\<rparr>)
       (filter (\<lambda>t. W \<inter> words_of (content t) \<noteq> {}) ts)"
  by (induction ts) (simp_all add: Let_def card_gt_0_iff finite_words_of)

lemma ranked_matching: "ranked E s q = list_sort_desc E (matching_pairs E s q)"
  by (simp add: ranked_def matching_pairs_def score_all_matching)

lemma mset_insort_desc: "mset (insort_desc x ys) = add_mset x (mset ys)"
  by (induction ys) simp_all

lemma mset_foldr_insort_desc: "mset (foldr insort_desc xs []) = mset xs"
  by (induction xs) (simp_all add: mset_insort_desc)

lemma set_insort_desc: "set (insort_desc x ys) = insert x (set ys)"
  by (induction ys) auto

lemma filter_insort_desc:
  "filter (\<lambda>y. relevance y = r) (insort_desc x ys) =
     (if relevance x = r then x # filter (\<lambda>y. relevance y = r) ys
      else filter (\<lambda>y. relevance y = r) ys)"
proof (induction ys)
  case Nil
  show ?case by simp
next
  case (Cons y ys)
  show ?case
  proof (cases "flt (relevance x) (relevance y)")
    case True
    then have "\<not> (relevance x = r \<and> relevance y = r)"
      using flt_irrefl by auto
    with True Cons.IH show ?thesis by auto
  next
    case False
    then show ?thesis by simp
  qed
qed

lemma filter_foldr_insort_desc:
  "filter (\<lambda>y. relevance y = r) (foldr insort_desc xs []) = filter (\<lambda>y. relevance y = r) xs"
  by (induction xs) (simp_all add: filter_insort_desc)

lemma sorted_insort_desc:
  "sorted_wrt (\<lambda>a b. fle (relevance b) (relevance a)) ys \<Longrightarrow> relevance x \<noteq> NaN \<Longrightarrow>
   NaN \<notin> relevance ` set ys \<Longrightarrow>
   sorted_wrt (\<lambda>a b. fle (relevance b) (relevance a)) (insort_desc x ys)"
proof (induction ys)
  case Nil
  show ?case by simp
next
  case (Cons y ys)
  have ny: "relevance y \<noteq> NaN" using Cons.prems(3) by auto
  have tail: "sorted_wrt (\<lambda>a b. fle (relevance b) (relevance a)) ys"
    and below: "\<forall>z\<in>set ys. fle (relevance z) (relevance y)"
    using Cons.prems(1) by simp_all
  have nys: "NaN \<notin> relevance ` set ys" using Cons.prems(3) by auto
  show ?case
  proof (cases "flt (relevance x) (relevance y)")
    case True
    then have "fle (relevance x) (relevance y)" by (rule flt_imp_fle)
    with below have "\<forall>z\<in>set (insort_desc x ys). fle (relevance z) (relevance y)"
      by (simp add: set_insort_desc)
    with True Cons.IH [OF tail Cons.prems(2) nys] show ?thesis by simp
  next
    case False
    have yx: "fle (relevance y) (relevance x)"
      using Cons.prems(2) ny False by (rule not_flt_fle)
    have "\<forall>z\<in>set ys. fle (relevance z) (relevance x)"
      using below yx by (blast intro: fle_trans)
    with False yx Cons.prems(1) show ?thesis by simp
  qed
qed

lemma set_foldr_insort_desc: "set (foldr insort_desc xs []) = set xs"
  by (induction xs) (simp_all add: set_insort_desc)

lemma sorted_foldr_insort_desc:
  "NaN \<notin> relevance ` set xs \<Longrightarrow>
   sorted_wrt (\<lambda>a b. fle (relevance b) (relevance a)) (foldr insort_desc xs [])"
proof (induction xs)
  case Nil
  show ?case by simp
next
  case (Cons x xs)
  have nx: "relevance x \<noteq> NaN" using Cons.prems by auto
  have nxs: "NaN \<notin> relevance ` set xs" using Cons.prems by auto
  then have nf: "NaN \<notin> relevance ` set (foldr insort_desc xs [])"
    by (simp add: set_foldr_insort_desc)
  from sorted_insort_desc [OF Cons.IH [OF nxs] nx nf] show ?case by simp
qed

lemma list_sort_desc_mset: "mset (list_sort_desc E xs) = mset xs"
  by (simp add: list_sort_desc_def mset_foldr_insort_desc)

lemma list_sort_desc_ordered:
  "NaN \<notin> relevance ` set xs \<Longrightarrow> list_sort_desc E xs = foldr insort_desc xs []"
  by (simp add: list_sort_desc_def)

lemma ranked_mset: "mset (ranked E s q) = mset (matching_pairs E s q)"
  by (simp add: ranked_matching list_sort_desc_mset)

lemma ranked_length: "length (ranked E s q) = length (matching_pairs E s q)"
  using ranked_mset [of E s q] by (metis size_mset)

lemma ranked_sorted:
  "NaN \<notin> relevance ` set (matching_pairs E s q) \<Longrightarrow>
   sorted_wrt (\<lambda>a b. fle (relevance b) (relevance a)) (ranked E s q)"
  by (simp add: ranked_matching list_sort_desc_ordered sorted_foldr_insort_desc)

lemma ranked_stable:
  "NaN \<notin> relevance ` set (matching_pairs E s q) \<Longrightarrow>
   filter (\<lambda>x. relevance x = r) (ranked E s q) =
   filter (\<lambda>x. relevance x = r) (matching_pairs E s q)"
  by (simp add: ranked_matching list_sort_desc_ordered filter_foldr_insort_desc)

text \<open>
  C2, as amended. For a \<open>top_k\<close> that is not negative and a store in which no matching
  entry has a NaN relevance, \<^verbatim>\<open>recall\<close> returns the first \<open>top_k\<close> pairs of a list \<open>L\<close>
  that holds exactly the matching pairs of the specification (the entries with a
  non-empty word overlap, each with the float product of overlap count and importance),
  is ordered by relevance, largest first, and keeps pairs of equal relevance in store
  order.
\<close>

theorem recall_contract:
  "0 \<le> top_k \<and> NaN \<notin> relevance ` set (matching_pairs E s q) \<longrightarrow>
     (\<exists>L. recall E s q top_k = take (nat top_k) L \<and>
          mset L = mset (matching_pairs E s q) \<and>
          sorted_wrt (\<lambda>a b. fle (relevance b) (relevance a)) L \<and>
          (\<forall>r. filter (\<lambda>x. relevance x = r) L =
                filter (\<lambda>x. relevance x = r) (matching_pairs E s q)))"
proof
  assume a: "0 \<le> top_k \<and> NaN \<notin> relevance ` set (matching_pairs E s q)"
  then have "recall E s q top_k = take (nat top_k) (ranked E s q)"
    by (simp add: recall_def slice_to_def)
  moreover from a have "sorted_wrt (\<lambda>a b. fle (relevance b) (relevance a)) (ranked E s q)"
    by (simp add: ranked_sorted)
  moreover from a have "\<forall>r. filter (\<lambda>x. relevance x = r) (ranked E s q) =
      filter (\<lambda>x. relevance x = r) (matching_pairs E s q)"
    by (simp add: ranked_stable)
  ultimately show "\<exists>L. recall E s q top_k = take (nat top_k) L \<and>
          mset L = mset (matching_pairs E s q) \<and>
          sorted_wrt (\<lambda>a b. fle (relevance b) (relevance a)) L \<and>
          (\<forall>r. filter (\<lambda>x. relevance x = r) L =
                filter (\<lambda>x. relevance x = r) (matching_pairs E s q))"
    using ranked_mset by blast
qed

theorem recall_contract_witness:
  "(0::int) \<le> 2 \<and> NaN \<notin> relevance ` set (matching_pairs demo_env rank_store ''x'') \<and>
   (\<exists>L. recall demo_env rank_store ''x'' 2 = take (nat 2) L \<and>
        mset L = mset (matching_pairs demo_env rank_store ''x'') \<and>
        sorted_wrt (\<lambda>a b. fle (relevance b) (relevance a)) L \<and>
        (\<forall>r. filter (\<lambda>x. relevance x = r) L =
              filter (\<lambda>x. relevance x = r) (matching_pairs demo_env rank_store ''x''))) \<and>
   map (\<lambda>x. (content (thought x), relevance x)) (recall demo_env rank_store ''x'' 2) =
     [(''X b'', Fin 3), (''x c'', Fin 2)]"
proof -
  have v: "map (\<lambda>x. (content (thought x), relevance x)) (recall demo_env rank_store ''x'' 2) =
     [(''X b'', Fin 3), (''x c'', Fin 2)]"
    by code_simp
  have "map relevance (matching_pairs demo_env rank_store ''x'') = [Fin 1, Fin 3, Fin 2]"
    by code_simp
  then have "relevance ` set (matching_pairs demo_env rank_store ''x'') = {Fin 1, Fin 3, Fin 2}"
    by (metis list.set_map list.simps(15) empty_set)
  then have n: "NaN \<notin> relevance ` set (matching_pairs demo_env rank_store ''x'')" by simp
  have z: "(0::int) \<le> 2" by simp
  from recall_contract [of 2 demo_env rank_store "''x''"] z n
  have "\<exists>L. recall demo_env rank_store ''x'' 2 = take (nat 2) L \<and>
        mset L = mset (matching_pairs demo_env rank_store ''x'') \<and>
        sorted_wrt (\<lambda>a b. fle (relevance b) (relevance a)) L \<and>
        (\<forall>r. filter (\<lambda>x. relevance x = r) L =
              filter (\<lambda>x. relevance x = r) (matching_pairs demo_env rank_store ''x''))"
    by blast
  with z n v show ?thesis by blast
qed

theorem recall_negative_slice_counterexample:
  "\<not> (\<exists>L. recall demo_env rank_store ''x'' (- 2) = take (nat (- 2)) L)"
proof -
  have "map (content \<circ> thought) (recall demo_env rank_store ''x'' (- 2)) = [''X b'']"
    by code_simp
  then have "recall demo_env rank_store ''x'' (- 2) \<noteq> []" by auto
  then show ?thesis by simp
qed

text \<open>
  C7, as amended. With \<open>top_k = 0\<close> the result is empty. With a negative \<open>top_k\<close> the
  result is the ranked list of all matches without its last \<open>- top_k\<close> pairs, so it is
  empty only when there are at most \<open>- top_k\<close> matches. With \<open>top_k\<close> at least the number
  of matching entries the result holds all matching pairs.
\<close>

theorem recall_top_k_bounds:
  "recall E s q 0 = [] \<and>
   (k < 0 \<longrightarrow>
      recall E s q k =
        take (length (matching_pairs E s q) - nat (- k))
          (recall E s q (int (length (matching_pairs E s q))))) \<and>
   (int (length (matching_pairs E s q)) \<le> k \<longrightarrow>
      mset (recall E s q k) = mset (matching_pairs E s q))"
proof (intro conjI impI)
  show "recall E s q 0 = []" by (simp add: recall_def slice_to_def)
next
  assume "k < 0"
  then have "nat (int (length (matching_pairs E s q)) + k) = length (matching_pairs E s q) - nat (- k)"
    by linarith
  with \<open>k < 0\<close> show "recall E s q k =
        take (length (matching_pairs E s q) - nat (- k))
          (recall E s q (int (length (matching_pairs E s q))))"
    by (simp add: recall_def slice_to_def ranked_length)
next
  assume "int (length (matching_pairs E s q)) \<le> k"
  then have "recall E s q k = ranked E s q"
    by (simp add: recall_def slice_to_def ranked_length)
  then show "mset (recall E s q k) = mset (matching_pairs E s q)"
    by (simp add: ranked_mset)
qed

theorem recall_top_k_bounds_witness:
  "recall demo_env x_store ''x'' 0 = [] \<and>
   (- 1 :: int) < 0 \<and>
   recall demo_env x_store ''x'' (- 1) =
     take (length (matching_pairs demo_env x_store ''x'') - nat (- (- 1)))
       (recall demo_env x_store ''x'' (int (length (matching_pairs demo_env x_store ''x'')))) \<and>
   length (matching_pairs demo_env x_store ''x'') = 2 \<and>
   mset (recall demo_env x_store ''x'' 2) = mset (matching_pairs demo_env x_store ''x'')"
proof -
  have n: "length (matching_pairs demo_env x_store ''x'') = 2" by code_simp
  from recall_top_k_bounds [of demo_env x_store "''x''" "- 1"]
    recall_top_k_bounds [of demo_env x_store "''x''" 2] n
  show ?thesis by simp
qed

theorem recall_nonpositive_top_k_counterexample:
  "(- 1 :: int) \<le> 0 \<and> map (content \<circ> thought) (recall demo_env x_store ''x'' (- 1)) = [''x a'']"
  by code_simp

section \<open>Novelty\<close>

lemma detect_novelty_cases:
  "detect_novelty E s t =
     (if thoughts s = [] \<or> recall E s t 1 = [] then Fin 1
      else py_max (Fin 0) (float_sub E (Fin 1) (relevance (hd (recall E s t 1)))))"
  by (simp add: detect_novelty_def split: list.splits)

lemma py_max_lower: "a \<noteq> NaN \<Longrightarrow> fle a (py_max a b)"
  by (simp add: py_max_def flt_imp_fle fle_refl)

lemma detect_novelty_nonneg: "fle (Fin 0) (detect_novelty E s t)"
  by (simp add: detect_novelty_cases py_max_lower) (simp add: fle_def)

text \<open>
  C5. The bound \<open>detect_novelty \<le> 1\<close> fails on the code: an entry of negative
  importance has a negative relevance, and \<^verbatim>\<open>max(0.0, 1.0 - relevance)\<close> is then above
  one. Here the store holds the thought \<^verbatim>\<open>"x"\<close> with importance \<open>- 1\<close>; the product
  \<^verbatim>\<open>1 * -1.0\<close> and the difference \<^verbatim>\<open>1.0 - (-1.0)\<close> are exact in floats.
\<close>

theorem detect_novelty_above_one:
  "detect_novelty demo_env
     (run_calls demo_env [(PyStr ''x'', Fin (- 1), (\<lambda>_. 0))] (init_mind 10000 0)) ''x'' = Fin 2"
  by code_simp

section \<open>Evolve: frame and log\<close>

text \<open>
  C8. When the depth is at least \<open>MAX_THOUGHT_DEPTH\<close>, which is 10, or
  \<^verbatim>\<open>recall(thought, top_k=3)\<close> finds nothing, \<^verbatim>\<open>evolve_thought\<close> returns the thought
  and leaves the whole state, the evolution history included, as it was. In every other
  case the state changes only by one record appended to the evolution history, made of
  the thought, the string returned, the depth and the clock reading, and the string
  returned is the merge of the thought with the content of the best match. The function
  is defined without recursion, so it returns on every input.
\<close>

theorem evolve_frame_and_log:
  "MAX_THOUGHT_DEPTH = 10 \<and>
   (MAX_THOUGHT_DEPTH \<le> d \<or> recall E s t 3 = [] \<longrightarrow> evolve_thought E s t d now = (t, s)) \<and>
   (d < MAX_THOUGHT_DEPTH \<and> recall E s t 3 \<noteq> [] \<longrightarrow>
      snd (evolve_thought E s t d now) =
        s\<lparr>evolution_history := evolution_history s @
            [\<lparr>original = t, evolved = fst (evolve_thought E s t d now),
              evolution_depth = d, evolution_timestamp = now\<rparr>]\<rparr> \<and>
      fst (evolve_thought E s t d now) =
        join '' '' (merge_loop {} [] (split t @ split (content (thought (hd (recall E s t 3)))))))"
  by (auto simp: evolve_thought_def MAX_THOUGHT_DEPTH_def Let_def split: list.splits)

theorem evolve_frame_and_log_witness:
  "evolve_thought demo_env pie_store ''red apple pie'' 10 7 = (''red apple pie'', pie_store) \<and>
   evolve_thought demo_env pie_store ''unrelated'' 0 7 = (''unrelated'', pie_store) \<and>
   snd (evolve_thought demo_env pie_store ''red apple pie'' 0 7) =
     pie_store\<lparr>evolution_history := evolution_history pie_store @
        [\<lparr>original = ''red apple pie'', evolved = ''red apple pie recipe'',
          evolution_depth = 0, evolution_timestamp = 7\<rparr>]\<rparr> \<and>
   fst (evolve_thought demo_env pie_store ''red apple pie'' 0 7) = ''red apple pie recipe''"
proof -
  have a: "recall demo_env pie_store ''unrelated'' 3 = []" by code_simp
  have b: "map (content \<circ> thought) (recall demo_env pie_store ''red apple pie'' 3) = [''apple pie recipe'']"
    by code_simp
  then have c: "recall demo_env pie_store ''red apple pie'' 3 \<noteq> []" by auto
  have d: "fst (evolve_thought demo_env pie_store ''red apple pie'' 0 7) = ''red apple pie recipe''"
    by code_simp
  from evolve_frame_and_log [of 10 demo_env pie_store "''red apple pie''" 7]
  have 1: "evolve_thought demo_env pie_store ''red apple pie'' 10 7 = (''red apple pie'', pie_store)"
    by (simp add: MAX_THOUGHT_DEPTH_def)
  from evolve_frame_and_log [of 0 demo_env pie_store "''unrelated''" 7] a
  have 2: "evolve_thought demo_env pie_store ''unrelated'' 0 7 = (''unrelated'', pie_store)"
    by (simp add: MAX_THOUGHT_DEPTH_def)
  from evolve_frame_and_log [of 0 demo_env pie_store "''red apple pie''" 7] c d
  have 3: "snd (evolve_thought demo_env pie_store ''red apple pie'' 0 7) =
     pie_store\<lparr>evolution_history := evolution_history pie_store @
        [\<lparr>original = ''red apple pie'', evolved = ''red apple pie recipe'',
          evolution_depth = 0, evolution_timestamp = 7\<rparr>]\<rparr>"
    by (simp add: MAX_THOUGHT_DEPTH_def)
  from 1 2 3 d show ?thesis by simp
qed

section \<open>Splitting and joining\<close>

lemma split_acc_words:
  "\<forall>c\<in>set acc. \<not> isspace c \<Longrightarrow> w \<in> set (split_acc acc s) \<Longrightarrow> w \<noteq> [] \<and> (\<forall>c\<in>set w. \<not> isspace c)"
proof (induction s arbitrary: acc)
  case Nil
  then show ?case by (auto split: if_splits)
next
  case (Cons c s)
  show ?case
  proof (cases "isspace c")
    case True
    have empty: "\<forall>c\<in>set ([] :: string). \<not> isspace c" by simp
    from Cons.prems(2) True have "w = acc \<and> acc \<noteq> [] \<or> w \<in> set (split_acc [] s)"
      by (auto split: if_splits)
    then show ?thesis
    proof
      assume "w = acc \<and> acc \<noteq> []"
      with Cons.prems(1) show ?thesis by simp
    next
      assume "w \<in> set (split_acc [] s)"
      with Cons.IH [OF empty] show ?thesis by simp
    qed
  next
    case False
    with Cons.prems(1) have "\<forall>c\<in>set (acc @ [c]). \<not> isspace c" by simp
    moreover from Cons.prems(2) False have "w \<in> set (split_acc (acc @ [c]) s)" by simp
    ultimately show ?thesis by (rule Cons.IH)
  qed
qed

lemma split_words: "w \<in> set (split s) \<Longrightarrow> w \<noteq> [] \<and> (\<forall>c\<in>set w. \<not> isspace c)"
  unfolding split_def by (rule split_acc_words [of "[]"]) simp_all

lemma split_acc_run:
  "\<forall>c\<in>set w. \<not> isspace c \<Longrightarrow> split_acc acc (w @ rest) = split_acc (acc @ w) rest"
  by (induction w arbitrary: acc) simp_all

lemma split_join:
  "\<forall>w\<in>set ws. w \<noteq> [] \<and> (\<forall>c\<in>set w. \<not> isspace c) \<Longrightarrow> split (join '' '' ws) = ws"
proof (induction "'' ''" ws rule: join.induct)
  case 1
  show ?case by (simp add: split_def)
next
  case (2 w)
  then have "split_acc [] (w @ []) = split_acc ([] @ w) []"
    by (intro split_acc_run) simp
  with 2 show ?case by (simp add: split_def)
next
  case (3 w v ws)
  have sp: "isspace CHR '' ''" by (simp add: isspace_def)
  from 3 have w: "w \<noteq> []" "\<forall>c\<in>set w. \<not> isspace c" by simp_all
  have "split_acc [] (w @ '' '' @ join '' '' (v # ws)) =
        split_acc ([] @ w) ('' '' @ join '' '' (v # ws))"
    using w(2) by (rule split_acc_run)
  also have "\<dots> = w # split_acc [] (join '' '' (v # ws))"
    using w(1) sp by simp
  also have "split_acc [] (join '' '' (v # ws)) = v # ws"
    using 3 by (simp add: split_def)
  finally show ?case by (simp add: split_def)
qed

section \<open>The merge of Evolve\<close>

lemma merge_loop_index:
  "merge_loop seen acc ws =
     acc @ map ((!) ws) (filter (\<lambda>i. lower (ws ! i) \<notin> seen \<union> lower ` set (take i ws)) [0..<length ws])"
proof (induction ws arbitrary: seen acc)
  case Nil
  show ?case by simp
next
  case (Cons w ws)
  have upt: "[0..<length (w # ws)] = 0 # map Suc [0..<length ws]"
    by (simp add: upt_conv_Cons map_Suc_upt del: upt_Suc)
  show ?case
  proof (cases "lower w \<in> seen")
    case True
    then have same: "insert (lower w) seen = seen" by auto
    have ne: "\<And>y. y \<notin> seen \<Longrightarrow> (y = lower w) = False" using True by auto
    from True show ?thesis
      unfolding upt by (simp add: Cons.IH filter_map o_def same ne cong: conj_cong)
  next
    case False
    then show ?thesis
      unfolding upt by (simp add: Cons.IH filter_map o_def conj_ac)
  qed
qed

lemma merge_loop_distinct:
  "distinct (map lower acc) \<Longrightarrow> lower ` set acc \<subseteq> seen \<Longrightarrow>
   distinct (map lower (merge_loop seen acc ws))"
proof (induction ws arbitrary: seen acc)
  case Nil
  then show ?case by simp
next
  case (Cons w ws)
  show ?case
  proof (cases "lower w \<in> seen")
    case True
    with Cons show ?thesis by simp
  next
    case False
    with Cons.prems have "distinct (map lower (acc @ [w]))"
      and "lower ` set (acc @ [w]) \<subseteq> insert (lower w) seen"
      by auto
    from Cons.IH [OF this] False show ?thesis by simp
  qed
qed

lemma merge_loop_subset: "set (merge_loop seen acc ws) \<subseteq> set acc \<union> set ws"
proof (induction ws arbitrary: seen acc)
  case Nil
  show ?case by simp
next
  case (Cons w ws)
  from Cons.IH [of "insert (lower w) seen" "acc @ [w]"] Cons.IH [of seen acc]
  show ?case by auto
qed

text \<open>
  C6. When \<^verbatim>\<open>evolve_thought\<close> merges (the depth is below the bound and the recall has
  a best match \<open>r\<close>), take the tokens of the thought followed by the tokens of the
  match's content: the words kept are those at the positions where no earlier token is
  equal to it after lower-casing, each as it is written there. The string returned is
  these words joined by single spaces, splitting it gives them back, and no two of them
  are equal after lower-casing.
\<close>

theorem evolve_merge:
  "d < MAX_THOUGHT_DEPTH \<and> recall E s t 3 = r # rs \<longrightarrow>
     (let ws = split t @ split (content (thought r));
          kept = map ((!) ws) (filter (\<lambda>i. lower (ws ! i) \<notin> lower ` set (take i ws)) [0..<length ws])
      in fst (evolve_thought E s t d now) = join '' '' kept \<and>
         split (fst (evolve_thought E s t d now)) = kept \<and>
         distinct (map lower kept))"
proof
  assume a: "d < MAX_THOUGHT_DEPTH \<and> recall E s t 3 = r # rs"
  define ws where "ws = split t @ split (content (thought r))"
  define kept where
    "kept = map ((!) ws) (filter (\<lambda>i. lower (ws ! i) \<notin> lower ` set (take i ws)) [0..<length ws])"
  have m: "merge_loop {} [] ws = kept"
    by (simp add: merge_loop_index kept_def)
  have out: "fst (evolve_thought E s t d now) = join '' '' kept"
    using a by (simp add: evolve_thought_def Let_def m [unfolded ws_def])
  have "set kept \<subseteq> set ws"
    using merge_loop_subset [of "{}" "[]" ws] by (simp add: m)
  then have "\<forall>w\<in>set kept. w \<noteq> [] \<and> (\<forall>c\<in>set w. \<not> isspace c)"
    using split_words by (auto simp: ws_def)
  then have rejoin: "split (join '' '' kept) = kept" by (rule split_join)
  have "distinct (map lower (merge_loop {} [] ws))"
    by (rule merge_loop_distinct) simp_all
  then have dist: "distinct (map lower kept)" by (simp add: m)
  from out rejoin dist show "let ws = split t @ split (content (thought r));
          kept = map ((!) ws) (filter (\<lambda>i. lower (ws ! i) \<notin> lower ` set (take i ws)) [0..<length ws])
      in fst (evolve_thought E s t d now) = join '' '' kept \<and>
         split (fst (evolve_thought E s t d now)) = kept \<and>
         distinct (map lower kept)"
    by (simp add: Let_def ws_def kept_def)
qed

theorem evolve_merge_witness:
  "(0::int) < MAX_THOUGHT_DEPTH \<and>
   recall demo_env pie_store ''red Apple pie APPLE'' 3 \<noteq> [] \<and>
   fst (evolve_thought demo_env pie_store ''red Apple pie APPLE'' 0 7) = ''red Apple pie recipe'' \<and>
   distinct (map lower (split (fst (evolve_thought demo_env pie_store ''red Apple pie APPLE'' 0 7))))"
proof -
  have d: "(0::int) < MAX_THOUGHT_DEPTH" by (simp add: MAX_THOUGHT_DEPTH_def)
  have "map (content \<circ> thought) (recall demo_env pie_store ''red Apple pie APPLE'' 3) = [''apple pie recipe'']"
    by code_simp
  then have ne: "recall demo_env pie_store ''red Apple pie APPLE'' 3 \<noteq> []" by auto
  then obtain r rs where rec: "recall demo_env pie_store ''red Apple pie APPLE'' 3 = r # rs"
    by (auto simp: neq_Nil_conv)
  from evolve_merge [of 0 demo_env pie_store "''red Apple pie APPLE''" r rs 7] d rec
  have "distinct (map lower (split (fst (evolve_thought demo_env pie_store ''red Apple pie APPLE'' 0 7))))"
    by (auto simp: Let_def)
  moreover have "fst (evolve_thought demo_env pie_store ''red Apple pie APPLE'' 0 7) = ''red Apple pie recipe''"
    by code_simp
  ultimately show ?thesis using d ne by simp
qed

section \<open>Associations built by an insertion\<close>

lemma linked_jaccard: "linked (words_of b) p \<longleftrightarrow> 1 / 10 < jaccard b (content p)"
proof (cases "words_of b \<inter> words_of (content p) = {}")
  case True
  then show ?thesis by (simp add: linked_def jaccard_def)
next
  case False
  then have ne: "words_of b \<union> words_of (content p) \<noteq> {}" by auto
  then have "0 < card (words_of b \<union> words_of (content p))"
    by (simp add: card_gt_0_iff finite_words_of)
  then have "max (card (words_of b \<union> words_of (content p))) 1 = card (words_of b \<union> words_of (content p))"
    by simp
  with False ne show ?thesis by (simp add: linked_def jaccard_def)
qed

lemma jaccard_commute: "jaccard a b = jaccard b a"
  by (simp add: jaccard_def Int_commute Un_commute)

lemma assoc_step_grows:
  "snd st key = Some l \<Longrightarrow> \<exists>l'. snd (assoc_step W k st p) key = Some l' \<and> set l \<subseteq> set l'"
  by (auto simp: assoc_step_alt append_at_def setdefault_def split: option.splits)

lemma foldl_assoc_grows:
  "snd st key = Some l \<Longrightarrow> \<exists>l'. snd (foldl (assoc_step W k) st ps) key = Some l' \<and> set l \<subseteq> set l'"
proof (induction ps arbitrary: st l)
  case Nil
  then show ?case by simp
next
  case (Cons p ps)
  from assoc_step_grows [OF Cons.prems, of W k p]
  obtain l1 where l1: "snd (assoc_step W k st p) key = Some l1" "set l \<subseteq> set l1" by blast
  from Cons.IH [OF l1(1)] l1(2) show ?case by auto
qed

lemma assoc_step_links:
  "linked W p \<Longrightarrow> snd st k = Some l0 \<Longrightarrow>
   (\<exists>l. snd (assoc_step W k st p) k = Some l \<and> content p \<in> set l) \<and>
   (\<exists>l. snd (assoc_step W k st p) (content p) = Some l \<and> k \<in> set l)"
  by (auto simp: assoc_step_alt append_at_def setdefault_def split: option.splits)

lemma foldl_assoc_links:
  "p \<in> set ps \<Longrightarrow> linked W p \<Longrightarrow> snd st k = Some l0 \<Longrightarrow>
   (\<exists>l. snd (foldl (assoc_step W k) st ps) k = Some l \<and> content p \<in> set l) \<and>
   (\<exists>l. snd (foldl (assoc_step W k) st ps) (content p) = Some l \<and> k \<in> set l)"
proof (induction ps arbitrary: st l0)
  case Nil
  then show ?case by simp
next
  case (Cons q ps)
  show ?case
  proof (cases "p = q")
    case True
    from assoc_step_links [OF Cons.prems(2,3)] True
    obtain l1 l2 where
      l1: "snd (assoc_step W k st q) k = Some l1" "content p \<in> set l1" and
      l2: "snd (assoc_step W k st q) (content p) = Some l2" "k \<in> set l2"
      by blast
    from foldl_assoc_grows [OF l1(1), of W k ps] l1(2)
    have "\<exists>l. snd (foldl (assoc_step W k) (assoc_step W k st q) ps) k = Some l \<and> content p \<in> set l"
      by auto
    moreover from foldl_assoc_grows [OF l2(1), of W k ps] l2(2)
    have "\<exists>l. snd (foldl (assoc_step W k) (assoc_step W k st q) ps) (content p) = Some l \<and> k \<in> set l"
      by auto
    ultimately show ?thesis by simp
  next
    case False
    with Cons.prems(1) have mem: "p \<in> set ps" by simp
    from assoc_step_grows [OF Cons.prems(3), of W k q]
    obtain l1 where "snd (assoc_step W k st q) k = Some l1" by blast
    from Cons.IH [OF mem Cons.prems(2) this] show ?thesis by simp
  qed
qed

lemma insert_item_associations:
  "associations (insert_item E imp now v s) =
     snd (foldl (assoc_step (words_of (py_str E v)) (py_str E v))
            (\<lparr>content = py_str E v, importance = imp, timestamp = now,
              thought_id = take 12 (md5_hexdigest E (py_str E v)), depth = 0,
              entry_associations = []\<rparr>,
             setdefault (associations s) (py_str E v) [])
            (thoughts s))"
  by (simp add: insert_item_def Let_def build_associations_def)

lemma evict_associations: "associations (evict_least_important s) = associations s"
  by (simp add: evict_least_important_def Let_def)

lemma expand_item_associations:
  "associations (expand_item E imp now v s) = associations (insert_item E imp now v s)"
  by (simp add: expand_item_def Let_def evict_associations)

lemma setdefault_present: "\<exists>l. setdefault m k v k = Some l"
  by (simp add: setdefault_def split: option.splits)

text \<open>
  C4. Let \<open>a\<close> be an entry of the store when the value \<open>v\<close> is inserted, the Jaccard
  similarity of the two contents above 0.1. After the insertion, also when it ends with
  an eviction, the content of \<open>a\<close> is in the adjacency list under the new content and the
  new content is in the adjacency list under the content of \<open>a\<close>; and the id of \<open>a\<close> is
  in the id list of the new entry, the last of the store before any eviction. The new
  entry is compared with the entries stored before it and with nothing else: the old
  entries stay as they are, the ids of the new entry are those of the old entries that
  pass the test, in store order, and on an empty store the adjacency map only gains the
  new key with an empty list.
\<close>

theorem association_symmetry:
  "(a \<in> set (thoughts s) \<and> 1 / 10 < jaccard (content a) (py_str E v) \<longrightarrow>
      (\<exists>l. associations (expand_item E imp now v s) (py_str E v) = Some l \<and> content a \<in> set l) \<and>
      (\<exists>l. associations (expand_item E imp now v s) (content a) = Some l \<and> py_str E v \<in> set l) \<and>
      thought_id a \<in> set (entry_associations (last (thoughts (insert_item E imp now v s))))) \<and>
   thoughts (insert_item E imp now v s) =
     thoughts s @
       [\<lparr>content = py_str E v, importance = imp, timestamp = now,
         thought_id = take 12 (md5_hexdigest E (py_str E v)), depth = 0,
         entry_associations =
           map thought_id (filter (\<lambda>p. 1 / 10 < jaccard (py_str E v) (content p)) (thoughts s))\<rparr>] \<and>
   (thoughts s = [] \<longrightarrow>
      associations (expand_item E imp now v s) = setdefault (associations s) (py_str E v) [])"
proof (intro conjI impI)
  assume h: "a \<in> set (thoughts s) \<and> 1 / 10 < jaccard (content a) (py_str E v)"
  then have mem: "a \<in> set (thoughts s)" and lk: "linked (words_of (py_str E v)) a"
    by (simp_all add: linked_jaccard jaccard_commute)
  obtain l0 where l0: "setdefault (associations s) (py_str E v) [] (py_str E v) = Some l0"
    using setdefault_present [of "associations s" "py_str E v" "[]"] by blast
  let ?e = "\<lparr>content = py_str E v, importance = imp, timestamp = now,
              thought_id = take 12 (md5_hexdigest E (py_str E v)), depth = 0,
              entry_associations = []\<rparr>"
  from foldl_assoc_links [OF mem lk, of "(?e, setdefault (associations s) (py_str E v) [])" "py_str E v" l0] l0
  show "\<exists>l. associations (expand_item E imp now v s) (py_str E v) = Some l \<and> content a \<in> set l"
    and "\<exists>l. associations (expand_item E imp now v s) (content a) = Some l \<and> py_str E v \<in> set l"
    by (simp_all add: expand_item_associations insert_item_associations)
  from mem lk show "thought_id a \<in> set (entry_associations (last (thoughts (insert_item E imp now v s))))"
    by (simp add: insert_item_thoughts)
next
  have "linked (words_of (py_str E v)) = (\<lambda>p. 1 / 10 < jaccard (py_str E v) (content p))"
    by (rule ext) (rule linked_jaccard)
  then show "thoughts (insert_item E imp now v s) =
     thoughts s @
       [\<lparr>content = py_str E v, importance = imp, timestamp = now,
         thought_id = take 12 (md5_hexdigest E (py_str E v)), depth = 0,
         entry_associations =
           map thought_id (filter (\<lambda>p. 1 / 10 < jaccard (py_str E v) (content p)) (thoughts s))\<rparr>]"
    by (simp add: insert_item_thoughts)
next
  assume "thoughts s = []"
  then show "associations (expand_item E imp now v s) = setdefault (associations s) (py_str E v) []"
    by (simp add: expand_item_associations insert_item_associations)
qed

theorem association_symmetry_witness:
  "hd (thoughts cat_store) \<in> set (thoughts cat_store) \<and>
   content (hd (thoughts cat_store)) = ''the cat sat'' \<and>
   1 / 10 < jaccard (content (hd (thoughts cat_store))) (py_str demo_env (PyStr ''the cat ran'')) \<and>
   (\<exists>l. associations (expand_item demo_env (Fin 1) 0 (PyStr ''the cat ran'') cat_store) ''the cat ran'' = Some l \<and>
        ''the cat sat'' \<in> set l) \<and>
   (\<exists>l. associations (expand_item demo_env (Fin 1) 0 (PyStr ''the cat ran'') cat_store) ''the cat sat'' = Some l \<and>
        ''the cat ran'' \<in> set l) \<and>
   thought_id (hd (thoughts cat_store)) \<in>
     set (entry_associations (last (thoughts (insert_item demo_env (Fin 1) 0 (PyStr ''the cat ran'') cat_store))))"
proof -
  have mem: "hd (thoughts cat_store) \<in> set (thoughts cat_store)" by code_simp
  have c: "content (hd (thoughts cat_store)) = ''the cat sat''" by code_simp
  have j: "1 / 10 < jaccard (content (hd (thoughts cat_store))) (py_str demo_env (PyStr ''the cat ran''))"
    by code_simp
  have ps: "py_str demo_env (PyStr ''the cat ran'') = ''the cat ran''" by simp
  have "hd (thoughts cat_store) \<in> set (thoughts cat_store) \<and>
        1 / 10 < jaccard (content (hd (thoughts cat_store))) (py_str demo_env (PyStr ''the cat ran''))"
    using mem j by (rule conjI)
  with association_symmetry [of "hd (thoughts cat_store)" cat_store demo_env "PyStr ''the cat ran''" "Fin 1" 0]
  have "(\<exists>l. associations (expand_item demo_env (Fin 1) 0 (PyStr ''the cat ran'') cat_store)
              (py_str demo_env (PyStr ''the cat ran'')) = Some l \<and>
            content (hd (thoughts cat_store)) \<in> set l) \<and>
        (\<exists>l. associations (expand_item demo_env (Fin 1) 0 (PyStr ''the cat ran'') cat_store)
              (content (hd (thoughts cat_store))) = Some l \<and>
            py_str demo_env (PyStr ''the cat ran'') \<in> set l) \<and>
        thought_id (hd (thoughts cat_store)) \<in>
          set (entry_associations (last (thoughts (insert_item demo_env (Fin 1) 0 (PyStr ''the cat ran'') cat_store))))"
    by blast
  then have links: "(\<exists>l. associations (expand_item demo_env (Fin 1) 0 (PyStr ''the cat ran'') cat_store)
              ''the cat ran'' = Some l \<and> ''the cat sat'' \<in> set l) \<and>
        (\<exists>l. associations (expand_item demo_env (Fin 1) 0 (PyStr ''the cat ran'') cat_store)
              ''the cat sat'' = Some l \<and> ''the cat ran'' \<in> set l) \<and>
        thought_id (hd (thoughts cat_store)) \<in>
          set (entry_associations (last (thoughts (insert_item demo_env (Fin 1) 0 (PyStr ''the cat ran'') cat_store))))"
    unfolding ps c .
  from mem c j links show ?thesis by blast
qed

section \<open>Only lists are batches\<close>








end
